theory Spec2Isabelle
  imports Complex_Main "HOL-Library.Word"
begin

section \<open>Status and the Node interface\<close>

text \<open>
  \<^verbatim>\<open>enum class Status { Success, Failure, Running, Idle }\<close> (status.hpp).
\<close>

datatype Status = Success | Failure | Running | Idle

text \<open>
  \<^verbatim>\<open>class Node\<close> (node.hpp) is an abstract interface: \<^verbatim>\<open>tick\<close> is pure virtual,
  \<^verbatim>\<open>reset\<close> and \<^verbatim>\<open>halt\<close> are virtual.  Composites and decorators reach their children
  only through it (\<^verbatim>\<open>NodePtr\<close>), so the model of a composite is parametric in the child:
  \<open>'c\<close> is the state of a child object and the record below is its virtual table.
  A call \<^verbatim>\<open>child->tick(blackboard)\<close> mutates the child and whatever its actions can reach,
  so \<open>tick\<close> returns the status, the child afterwards and the world afterwards.
  The world \<open>'w\<close> is the \<^verbatim>\<open>Blackboard&\<close> handed down, together with everything else a
  caller-supplied function may touch (captured counters, the clock).
  Children are values here: a child object is owned by one parent, as in every tree the
  builder produces, and a tick is not re-entered from inside an action.
\<close>

record ('c, 'w) Node =
  tick :: "'c \<Rightarrow> 'w \<Rightarrow> Status \<times> 'c \<times> 'w"
  reset :: "'c \<Rightarrow> 'c"
  halt :: "'c \<Rightarrow> 'c"

section \<open>Sequence (sequence.hpp)\<close>

text \<open>
  The fields \<^verbatim>\<open>children_\<close>, \<^verbatim>\<open>currentIndex_\<close> (a \<^verbatim>\<open>size_t\<close> that never exceeds
  \<^verbatim>\<open>children_.size()\<close>, hence a \<open>nat\<close>) and the inherited \<^verbatim>\<open>halted_\<close>.
\<close>

record 'c Sequence =
  seq_children :: "'c list"
  seq_currentIndex :: nat
  seq_halted :: bool

text \<open>\<^verbatim>\<open>Sequence::reset\<close>: cursor to 0, flag cleared, \<^verbatim>\<open>reset()\<close> on every child.\<close>

definition Sequence_reset :: "('c, 'w) Node \<Rightarrow> 'c Sequence \<Rightarrow> 'c Sequence" where
  "Sequence_reset N s =
     s\<lparr>seq_currentIndex := 0, seq_halted := False,
       seq_children := map (reset N) (seq_children s)\<rparr>"

text \<open>\<^verbatim>\<open>Sequence::halt\<close>: flag set, \<^verbatim>\<open>halt()\<close> on every child.\<close>

definition Sequence_halt :: "('c, 'w) Node \<Rightarrow> 'c Sequence \<Rightarrow> 'c Sequence" where
  "Sequence_halt N s =
     s\<lparr>seq_halted := True, seq_children := map (halt N) (seq_children s)\<rparr>"

text \<open>
  The \<^verbatim>\<open>while (currentIndex_ < children_.size())\<close> loop of \<^verbatim>\<open>Sequence::tick\<close>.  The child at
  the cursor is ticked in place; \<^verbatim>\<open>Running\<close> returns at once, \<^verbatim>\<open>Failure\<close> resets and
  returns, anything else (\<^verbatim>\<open>Success\<close>, and \<^verbatim>\<open>Idle\<close> too) advances the cursor.
\<close>

function seq_loop :: "('c, 'w) Node \<Rightarrow> 'c Sequence \<Rightarrow> 'w \<Rightarrow> Status \<times> 'c Sequence \<times> 'w" where
  "seq_loop N s w =
     (if seq_currentIndex s < length (seq_children s) then
        (case tick N (seq_children s ! seq_currentIndex s) w of
           (status, c', w') \<Rightarrow>
             let s1 = s\<lparr>seq_children := (seq_children s)[seq_currentIndex s := c']\<rparr> in
             if status = Running then (Running, s1, w')
             else if status = Failure then (Failure, Sequence_reset N s1, w')
             else seq_loop N (s1\<lparr>seq_currentIndex := seq_currentIndex s + 1\<rparr>) w')
      else (Success, Sequence_reset N s, w))"
  by pat_completeness auto
termination
  by (relation "measure (\<lambda>(N, s, w). length (seq_children s) - seq_currentIndex s)") auto

declare seq_loop.simps [simp del]

text \<open>\<^verbatim>\<open>Sequence::tick\<close>: the halted guard, then the loop.\<close>

definition Sequence_tick :: "('c, 'w) Node \<Rightarrow> 'c Sequence \<Rightarrow> 'w \<Rightarrow> Status \<times> 'c Sequence \<times> 'w" where
  "Sequence_tick N s w = (if seq_halted s then (Failure, s, w) else seq_loop N s w)"

section \<open>Selector and Parallel\<close>






text \<open>
  \<^verbatim>\<open>class Parallel\<close> with its two policies.  The \<^verbatim>\<open>for (auto& c : children_)\<close> loop ticks each
  child and keeps the two \<^verbatim>\<open>size_t\<close> counters (bounded by the number of children, hence
  \<open>nat\<close>).
\<close>

datatype Policy = RequireAll | RequireOne

record 'c Parallel =
  par_children :: "'c list"
  successPolicy :: Policy
  failurePolicy :: Policy

fun par_loop :: "('c, 'w) Node \<Rightarrow> 'c list \<Rightarrow> nat \<Rightarrow> nat \<Rightarrow> 'w \<Rightarrow> 'c list \<times> nat \<times> nat \<times> 'w" where
  "par_loop N [] success failure w = ([], success, failure, w)"
| "par_loop N (c # cs) success failure w =
     (case tick N c w of
        (s, c', w') \<Rightarrow>
          (case (if s = Success then par_loop N cs (success + 1) failure w'
                 else if s = Failure then par_loop N cs success (failure + 1) w'
                 else par_loop N cs success failure w') of
             (cs', success', failure', w'') \<Rightarrow> (c' # cs', success', failure', w'')))"

definition Parallel_tick :: "('c, 'w) Node \<Rightarrow> 'c Parallel \<Rightarrow> 'w \<Rightarrow> Status \<times> 'c Parallel \<times> 'w" where
  "Parallel_tick N p w =
     (case par_loop N (par_children p) 0 0 w of
        (cs', success, failure, w') \<Rightarrow>
          let p' = p\<lparr>par_children := cs'\<rparr> in
          if (successPolicy p' = RequireAll \<and> success = length (par_children p')) \<or>
             (successPolicy p' = RequireOne \<and> success > 0) then (Success, p', w')
          else if (failurePolicy p' = RequireAll \<and> failure = length (par_children p')) \<or>
                  (failurePolicy p' = RequireOne \<and> failure > 0) then (Failure, p', w')
          else (Running, p', w'))"

section \<open>Action\<close>

text \<open>
  \<^verbatim>\<open>class Action\<close> holds a \<^verbatim>\<open>std::function<Status(Blackboard&)>\<close> and its \<^verbatim>\<open>tick\<close> returns
  \<^verbatim>\<open>func_(blackboard)\<close>; \<^verbatim>\<open>reset\<close> and \<^verbatim>\<open>halt\<close> are the empty defaults of \<^verbatim>\<open>Node\<close>.  The
  child state is the function itself.
\<close>

definition Action_tick :: "('w \<Rightarrow> Status \<times> 'w) \<Rightarrow> 'w \<Rightarrow> Status \<times> ('w \<Rightarrow> Status \<times> 'w) \<times> 'w" where
  "Action_tick func w = (case func w of (status, w') \<Rightarrow> (status, func, w'))"

definition Action :: "('w \<Rightarrow> Status \<times> 'w, 'w) Node" where
  "Action = \<lparr>tick = Action_tick, reset = id, halt = id\<rparr>"

section \<open>Decorator (decorator.hpp)\<close>

text \<open>
  \<^verbatim>\<open>Decorator::Func\<close> is \<^verbatim>\<open>std::function<Status(Status)>\<close>: a closure.  Its captured state
  (\<open>'f\<close>: nothing for the inverter, the attempt counter of \<^verbatim>\<open>Repeat\<close>, the time stamp of
  \<^verbatim>\<open>Cooldown\<close>) is written out, and its body gets the world to read (the clock); it is not
  handed the blackboard.  Calling it returns the status and the closure with its new
  captured state.  A closure that captured a pointer into the tree and ticked nodes on its
  own is outside this model.
\<close>

datatype ('f, 'w) Func = Func (captures: 'f) (body: "'f \<Rightarrow> 'w \<Rightarrow> Status \<Rightarrow> Status \<times> 'f")

definition call :: "('f, 'w) Func \<Rightarrow> 'w \<Rightarrow> Status \<Rightarrow> Status \<times> ('f, 'w) Func" where
  "call f w status =
     (case body f (captures f) w status of (r, e') \<Rightarrow> (r, Func e' (body f)))"

record ('f, 'c, 'w) Decorator =
  dec_func :: "('f, 'w) Func"
  dec_child :: 'c
  dec_halted :: bool

definition Decorator_tick ::
  "('c, 'w) Node \<Rightarrow> ('f, 'c, 'w) Decorator \<Rightarrow> 'w \<Rightarrow> Status \<times> ('f, 'c, 'w) Decorator \<times> 'w" where
  "Decorator_tick N d w =
     (if dec_halted d then (Failure, d, w)
      else (case tick N (dec_child d) w of
              (childStatus, c', w') \<Rightarrow>
                (case call (dec_func d) w' childStatus of
                   (r, f') \<Rightarrow> (r, d\<lparr>dec_func := f', dec_child := c'\<rparr>, w'))))"

definition Decorator_reset :: "('c, 'w) Node \<Rightarrow> ('f, 'c, 'w) Decorator \<Rightarrow> ('f, 'c, 'w) Decorator" where
  "Decorator_reset N d = d\<lparr>dec_halted := False, dec_child := reset N (dec_child d)\<rparr>"

definition Decorator_halt :: "('c, 'w) Node \<Rightarrow> ('f, 'c, 'w) Decorator \<Rightarrow> ('f, 'c, 'w) Decorator" where
  "Decorator_halt N d = d\<lparr>dec_halted := True, dec_child := halt N (dec_child d)\<rparr>"

subsection \<open>Factories of namespace decorators: Inverter, Repeat, Cooldown\<close>

definition Inverter :: "(unit, 'w) Func" where
  "Inverter = Func () (\<lambda>u w status.
     if status = Success then (Failure, u)
     else if status = Failure then (Success, u)
     else (status, u))"

text \<open>
  \<^verbatim>\<open>Repeat(int maxTimes = -1)\<close>: \<^verbatim>\<open>attempts\<close> is a shared \<^verbatim>\<open>int\<close> starting at 0, captured
  together with \<^verbatim>\<open>maxTimes\<close>.  Both are 32-bit signed; \<^verbatim>\<open>(*attempts)++\<close> is the word
  addition (the wrap-around at \<^verbatim>\<open>INT_MAX\<close>, which C++ leaves undefined, can only be reached
  when \<^verbatim>\<open>maxTimes <= 0\<close>, where the counter is never read again by a test that passes).
\<close>

definition Repeat_body :: "32 word \<Rightarrow> 32 word \<Rightarrow> 'w \<Rightarrow> Status \<Rightarrow> Status \<times> 32 word" where
  "Repeat_body maxTimes attempts w status =
     (if status = Running then (Running, attempts)
      else if status = Success then (Success, 0)
      else if status = Failure then
        (let attempts' = attempts + 1 in
         if 0 < sint maxTimes \<and> sint maxTimes \<le> sint attempts' then (Failure, 0)
         else (Running, attempts'))
      else (status, attempts))"

definition Repeat :: "32 word \<Rightarrow> (32 word, 'w) Func" where
  "Repeat maxTimes = Func 0 (Repeat_body maxTimes)"

text \<open>
  \<^verbatim>\<open>float\<close> is IEEE 754 binary32 with the default rounding (to nearest, ties to even) and
  no excess precision.  A finite float is the rational number it stands for; \<open>round_f32\<close>
  takes a rational to the nearest float: 24 significant bits, the exponent of the
  smallest normal number as lower bound (below it the spacing stays \<open>2 powi (- 149)\<close>, the
  subnormal numbers).  Overflow to infinity (from \<open>2 ^ 128\<close> on) is not modelled: the
  numbers below are millisecond counts of a 64-bit clock and their quotients by 1000.
\<close>

function log2_floor :: "int \<Rightarrow> int" where
  "log2_floor n = (if n < 2 then 0 else 1 + log2_floor (n div 2))"
  by pat_completeness auto
termination
  by (relation "measure nat") auto

declare log2_floor.simps [simp del]

text \<open>The binary exponent of a positive rational \<open>q\<close>: \<open>2 powi e \<le> q < 2 powi (e + 1)\<close>.\<close>

definition exponent :: "rat \<Rightarrow> int" where
  "exponent q =
     (case quotient_of q of
        (n, d) \<Rightarrow>
          let e = log2_floor n - log2_floor d
          in if 2 powi e \<le> q then e else e - 1)"

definition round_half_even :: "rat \<Rightarrow> int" where
  "round_half_even x =
     (let f = \<lfloor>x\<rfloor>; r = x - of_int f
      in if r < 1 / 2 then f else if 1 / 2 < r then f + 1 else if even f then f else f + 1)"

definition round_f32 :: "rat \<Rightarrow> rat" where
  "round_f32 q =
     (if q = 0 then 0
      else let e = max (exponent \<bar>q\<bar>) (- 126); ulp = 2 powi (e - 23)
           in of_int (round_half_even (q / ulp)) * ulp)"

text \<open>
  The conversion of an integer to \<^verbatim>\<open>float\<close> (the \<^verbatim>\<open>count()\<close> of a duration, in an
  arithmetic expression with a \<^verbatim>\<open>float\<close>) and the \<^verbatim>\<open>float\<close> division.
\<close>

definition f32_of_int :: "int \<Rightarrow> rat" where
  "f32_of_int n = round_f32 (of_int n)"

definition f32_div :: "rat \<Rightarrow> rat \<Rightarrow> rat" where
  "f32_div x y = round_f32 (x / y)"

text \<open>
  \<^verbatim>\<open>Cooldown(float seconds)\<close>: \<^verbatim>\<open>lastSuccess\<close> is a shared \<^verbatim>\<open>steady_clock::time_point\<close>,
  value-initialised to the epoch, which the body uses as "no success yet".  A time point is
  its count of clock periods (nanoseconds) since the epoch, \<open>now\<close> reads the clock from the
  world.  \<^verbatim>\<open>duration_cast<milliseconds>\<close> truncates towards zero, and
  \<^verbatim>\<open>elapsed = duration_cast<milliseconds>(now - *lastSuccess).count() / 1000.0f\<close> is the
  count converted to \<^verbatim>\<open>float\<close> and divided in \<^verbatim>\<open>float\<close>.  The comparison
  \<^verbatim>\<open>elapsed < seconds\<close> of two finite floats is the comparison of their values.
\<close>

definition duration_cast_ms :: "int \<Rightarrow> int" where
  "duration_cast_ms d = sgn d * (\<bar>d\<bar> div 1000000)"

definition elapsed_s :: "int \<Rightarrow> int \<Rightarrow> rat" where
  "elapsed_s t lastSuccess = f32_div (f32_of_int (duration_cast_ms (t - lastSuccess))) 1000"

definition Cooldown_body :: "('w \<Rightarrow> int) \<Rightarrow> rat \<Rightarrow> int \<Rightarrow> 'w \<Rightarrow> Status \<Rightarrow> Status \<times> int" where
  "Cooldown_body now seconds lastSuccess w status =
     (if status = Success then (Success, now w)
      else if lastSuccess \<noteq> 0 \<and> elapsed_s (now w) lastSuccess < seconds then (Failure, lastSuccess)
      else (status, lastSuccess))"

text \<open>
  The parameter is a \<^verbatim>\<open>float\<close>: whatever number the caller writes (\<^verbatim>\<open>cooldown(0.5)\<close>) is
  converted on the way in, and the closure captures the float.
\<close>

definition Cooldown :: "('w \<Rightarrow> int) \<Rightarrow> rat \<Rightarrow> (int, 'w) Func" where
  "Cooldown now seconds = Func 0 (Cooldown_body now (round_f32 seconds))"

section \<open>Blackboard\<close>

text \<open>
  \<^verbatim>\<open>std::any\<close> is a value together with the identity of its type; \<^verbatim>\<open>std::any_cast<T>\<close>
  returns the value when the stored type is \<^verbatim>\<open>T\<close> and throws \<^verbatim>\<open>std::bad_any_cast\<close>
  otherwise.  \<open>'t\<close> names the types and \<open>'v\<close> is the universe of their values.
\<close>

datatype ('t, 'v) any = Any (type_of: 't) (contents: 'v)

datatype exception = bad_any_cast

definition make_any :: "'t \<Rightarrow> 'v \<Rightarrow> ('t, 'v) any" where
  "make_any T v = Any T v"

definition any_cast :: "'t \<Rightarrow> ('t, 'v) any \<Rightarrow> exception + 'v" where
  "any_cast T a = (if type_of a = T then Inr (contents a) else Inl bad_any_cast)"

text \<open>
  \<^verbatim>\<open>class Blackboard\<close>: the \<^verbatim>\<open>unordered_map<std::string, std::any> data_\<close>.  The mutex is held
  for the length of each call and has no effect on a single thread; it is left out.
\<close>

record ('t, 'v) Blackboard =
  bb_data :: "string \<rightharpoonup> ('t, 'v) any"

definition Blackboard_new :: "('t, 'v) Blackboard" where
  "Blackboard_new = \<lparr>bb_data = Map.empty\<rparr>"

text \<open>\<^verbatim>\<open>set<T>(key, value)\<close>: \<^verbatim>\<open>data_[key] = std::make_any<T>(std::move(value))\<close>.\<close>

definition Blackboard_set :: "'t \<Rightarrow> string \<Rightarrow> 'v \<Rightarrow> ('t, 'v) Blackboard \<Rightarrow> ('t, 'v) Blackboard" where
  "Blackboard_set T key v bb = bb\<lparr>bb_data := (bb_data bb)(key \<mapsto> make_any T v)\<rparr>"

text \<open>
  \<^verbatim>\<open>get<T>(key)\<close>: \<^verbatim>\<open>find\<close>, then the cast inside \<^verbatim>\<open>try { ... } catch (...)\<close>.  The result is
  \<^verbatim>\<open>Inr\<close> of the optional; \<^verbatim>\<open>Inl\<close> would be an exception leaving \<^verbatim>\<open>get\<close>.
\<close>

definition Blackboard_get :: "'t \<Rightarrow> string \<Rightarrow> ('t, 'v) Blackboard \<Rightarrow> exception + 'v option" where
  "Blackboard_get T key bb =
     (case bb_data bb key of
        Some a \<Rightarrow> (case any_cast T a of Inr v \<Rightarrow> Inr (Some v) | Inl e \<Rightarrow> Inr None)
      | None \<Rightarrow> Inr None)"

section \<open>Tree and Builder\<close>

text \<open>
  What the sources hold of the builder is a listing of \<^verbatim>\<open>namespace abt\<close>, an earlier version:
  it has none of \<^verbatim>\<open>inverter()\<close>, \<^verbatim>\<open>repeat()\<close>, \<^verbatim>\<open>retry()\<close> that the tests of the builder
  call.  The header \<^verbatim>\<open>builder.hpp\<close> of \<^verbatim>\<open>namespace bonsai\<close> which those tests exercise is not
  among the sources.  The listing comes first, as it is written.

  The builder keeps \<^verbatim>\<open>shared_ptr\<close>s to the composites it has opened while the same objects
  hang in the tree under \<^verbatim>\<open>root_\<close>, so the nodes live in a store: an address is a number,
  a \<^verbatim>\<open>NodePtr\<close> is an optional address (\<open>None\<close> is the null pointer) and
  \<^verbatim>\<open>std::make_shared\<close> takes the next free address.
\<close>

type_synonym addr = nat
type_synonym NodePtr = "addr option"

datatype ('a, 'f) object =
    ActionObj 'a
  | SequenceObj "addr list" nat
  | SelectorObj "addr list" nat
  | ParallelObj Policy Policy "addr list"
  | DecoratorObj 'f addr

record ('a, 'f) Builder =
  root :: NodePtr
  stack :: "addr list"
  decorators :: "'f list"
  store :: "('a, 'f) object list"

text \<open>\<^verbatim>\<open>class Bonsai\<close>: the root pointer and the blackboard (here with the store it points into).\<close>

record ('a, 'f, 't, 'v) Bonsai =
  tree_root :: NodePtr
  blackboard :: "('t, 'v) Blackboard"
  tree_store :: "('a, 'f) object list"

definition Builder_new :: "('a, 'f) Builder" where
  "Builder_new = \<lparr>root = None, stack = [], decorators = [], store = []\<rparr>"

definition make_shared :: "('a, 'f) object \<Rightarrow> ('a, 'f) Builder \<Rightarrow> addr \<times> ('a, 'f) Builder" where
  "make_shared obj b = (length (store b), b\<lparr>store := store b @ [obj]\<rparr>)"

text \<open>
  \<^verbatim>\<open>Builder::add\<close>: with an empty stack the node becomes the root; otherwise the chain of
  \<^verbatim>\<open>dynamic_pointer_cast\<close>s on \<^verbatim>\<open>stack_.back()\<close> appends it to a sequence, selector or
  parallel, and has no final \<^verbatim>\<open>else\<close>.
\<close>

definition add :: "addr \<Rightarrow> ('a, 'f) Builder \<Rightarrow> ('a, 'f) Builder" where
  "add n b =
     (if stack b = [] then b\<lparr>root := Some n\<rparr>
      else let parent = last (stack b) in
        if parent < length (store b) then
          (case store b ! parent of
             SequenceObj cs i \<Rightarrow> b\<lparr>store := (store b)[parent := SequenceObj (cs @ [n]) i]\<rparr>
           | SelectorObj cs i \<Rightarrow> b\<lparr>store := (store b)[parent := SelectorObj (cs @ [n]) i]\<rparr>
           | ParallelObj s f cs \<Rightarrow> b\<lparr>store := (store b)[parent := ParallelObj s f (cs @ [n])]\<rparr>
           | _ \<Rightarrow> b)
        else b)"

definition Builder_sequence :: "('a, 'f) Builder \<Rightarrow> ('a, 'f) Builder" where
  "Builder_sequence b =
     (case make_shared (SequenceObj [] 0) b of
        (n, b1) \<Rightarrow> let b2 = add n b1 in b2\<lparr>stack := stack b2 @ [n]\<rparr>)"

definition Builder_selector :: "('a, 'f) Builder \<Rightarrow> ('a, 'f) Builder" where
  "Builder_selector b =
     (case make_shared (SelectorObj [] 0) b of
        (n, b1) \<Rightarrow> let b2 = add n b1 in b2\<lparr>stack := stack b2 @ [n]\<rparr>)"

definition Builder_parallel :: "Policy \<Rightarrow> Policy \<Rightarrow> ('a, 'f) Builder \<Rightarrow> ('a, 'f) Builder" where
  "Builder_parallel s f b =
     (case make_shared (ParallelObj s f []) b of
        (n, b1) \<Rightarrow> let b2 = add n b1 in b2\<lparr>stack := stack b2 @ [n]\<rparr>)"

definition Builder_decorator :: "'f \<Rightarrow> ('a, 'f) Builder \<Rightarrow> ('a, 'f) Builder" where
  "Builder_decorator func b = b\<lparr>decorators := decorators b @ [func]\<rparr>"

text \<open>The \<^verbatim>\<open>while (!decorators_.empty())\<close> loop of \<^verbatim>\<open>Builder::action\<close>, last decorator innermost.\<close>

function wrap_decorators :: "addr \<Rightarrow> ('a, 'f) Builder \<Rightarrow> addr \<times> ('a, 'f) Builder" where
  "wrap_decorators node b =
     (if decorators b \<noteq> [] then
        (case make_shared (DecoratorObj (last (decorators b)) node) b of
           (node', b1) \<Rightarrow> wrap_decorators node' (b1\<lparr>decorators := butlast (decorators b1)\<rparr>))
      else (node, b))"
  by pat_completeness auto
termination
  by (relation "measure (\<lambda>(node, b). length (decorators b))") (auto simp: make_shared_def)

declare wrap_decorators.simps [simp del]

definition Builder_action :: "'a \<Rightarrow> ('a, 'f) Builder \<Rightarrow> ('a, 'f) Builder" where
  "Builder_action func b =
     (case make_shared (ActionObj func) b of
        (node, b1) \<Rightarrow> (case wrap_decorators node b1 of (node', b2) \<Rightarrow> add node' b2))"

definition Builder_end :: "('a, 'f) Builder \<Rightarrow> ('a, 'f) Builder" where
  "Builder_end b = (if stack b \<noteq> [] then b\<lparr>stack := butlast (stack b)\<rparr> else b)"

text \<open>
  \<^verbatim>\<open>Bonsai build() { return Bonsai(root_); }\<close> of the listing: there is no test of
  \<^verbatim>\<open>root_\<close> and no \<^verbatim>\<open>throw\<close>, so the result type has no error alternative.
\<close>

definition build :: "('a, 'f) Builder \<Rightarrow> ('a, 'f, 't, 'v) Bonsai" where
  "build b = \<lparr>tree_root = root b, blackboard = Blackboard_new, tree_store = store b\<rparr>"

subsection \<open>The builder of builder.hpp\<close>





section \<open>Observing which children are ticked\<close>

text \<open>
  To say which children a tick invokes, each child is given its position and made to
  write that position to a log on every \<^verbatim>\<open>tick\<close>, the way a test counts executions with a
  captured counter.  The composite under test is untouched: it runs over the children
  \<open>(k, c)\<close> and the world \<open>(w, log)\<close> through the same interface.
\<close>

definition logged_tick :: "('c, 'w) Node \<Rightarrow> nat \<times> 'c \<Rightarrow> 'w \<times> nat list \<Rightarrow> Status \<times> (nat \<times> 'c) \<times> ('w \<times> nat list)" where
  "logged_tick N kc wl =
     (case tick N (snd kc) (fst wl) of
        (status, c', w') \<Rightarrow> (status, (fst kc, c'), (w', snd wl @ [fst kc])))"

definition logged :: "('c, 'w) Node \<Rightarrow> (nat \<times> 'c, 'w \<times> nat list) Node" where
  "logged N = \<lparr>tick = logged_tick N, reset = apsnd (reset N), halt = apsnd (halt N)\<rparr>"

text \<open>Ticking every child of a list once, from left to right: the statuses they return.\<close>

fun tick_each :: "('c, 'w) Node \<Rightarrow> 'c list \<Rightarrow> 'w \<Rightarrow> Status list \<times> 'c list \<times> 'w" where
  "tick_each N [] w = ([], [], w)"
| "tick_each N (c # cs) w =
     (case tick N c w of
        (status, c', w') \<Rightarrow>
          (case tick_each N cs w' of (sts, cs', w'') \<Rightarrow> (status # sts, c' # cs', w'')))"

text \<open>The caller's loop: \<open>n\<close> ticks in a row of one node, collecting the statuses.\<close>

fun ticks :: "('s \<Rightarrow> 'w \<Rightarrow> Status \<times> 's \<times> 'w) \<Rightarrow> nat \<Rightarrow> 's \<Rightarrow> 'w \<Rightarrow> Status list \<times> 's \<times> 'w" where
  "ticks t 0 s w = ([], s, w)"
| "ticks t (Suc n) s w =
     (case t s w of
        (status, s', w') \<Rightarrow>
          (case ticks t n s' w' of (sts, s'', w'') \<Rightarrow> (status # sts, s'', w'')))"

section \<open>Concrete actions for the examples\<close>

text \<open>
  Actions over a world that is the number of action executions so far (the
  \<^verbatim>\<open>execution_count\<close> of the tests): each counts itself and returns a fixed status, and
  \<open>act_wait\<close> is still running on its first execution.
\<close>

definition act_Success :: "nat \<Rightarrow> Status \<times> nat" where
  "act_Success n = (Success, Suc n)"

definition act_Failure :: "nat \<Rightarrow> Status \<times> nat" where
  "act_Failure n = (Failure, Suc n)"

definition act_Running :: "nat \<Rightarrow> Status \<times> nat" where
  "act_Running n = (Running, Suc n)"

definition act_wait :: "nat \<Rightarrow> Status \<times> nat" where
  "act_wait n = (if n = 0 then Running else Success, Suc n)"

text \<open>Actions over a world that is the clock reading: they take no time.\<close>

definition act_instant :: "int \<Rightarrow> Status \<times> int" where
  "act_instant t = (Success, t)"

definition act_instant_Running :: "int \<Rightarrow> Status \<times> int" where
  "act_instant_Running t = (Running, t)"

section \<open>Basic facts\<close>

lemma logged_simps [simp]:
  "tick (logged N) = logged_tick N"
  "reset (logged N) = apsnd (reset N)"
  "halt (logged N) = apsnd (halt N)"
  by (simp_all add: logged_def)

lemma Action_simps [simp]:
  "tick Action = Action_tick"
  "reset Action = id"
  "halt Action = id"
  by (simp_all add: Action_def)

lemmas act_defs = Action_tick_def act_Success_def act_Failure_def act_Running_def act_wait_def
  act_instant_def act_instant_Running_def

lemma tick_each_length:
  "tick_each N cs w = (sts, cs', w') \<Longrightarrow> length sts = length cs \<and> length cs' = length cs"
  by (induction cs arbitrary: w sts cs' w') (auto split: prod.splits)

lemma tick_each_logged:
  "tick_each N cs w = (sts, cs', w') \<Longrightarrow>
   tick_each (logged N) (enumerate k cs) (w, tr) = (sts, enumerate k cs', (w', tr @ [k..<k + length cs]))"
proof (induction cs arbitrary: k w tr sts cs' w')
  case Nil
  then show ?case by simp
next
  case (Cons c cs)
  obtain st c1 w1 where t: "tick N c w = (st, c1, w1)" by (cases "tick N c w")
  obtain sts1 cs1 w2 where e: "tick_each N cs w1 = (sts1, cs1, w2)" by (cases "tick_each N cs w1")
  from Cons.prems t e have r: "sts = st # sts1" "cs' = c1 # cs1" "w' = w2" by simp_all
  have "[k..<k + length (c # cs)] = k # [Suc k..<Suc k + length cs]"
    by (simp add: upt_rec)
  with Cons.IH [OF e, of "Suc k" "tr @ [k]"] t r show ?case
    by (simp add: logged_tick_def)
qed


lemma map_apsnd_enumerate: "map (apsnd f) (enumerate k cs) = enumerate k (map f cs)"
  by (induction cs arbitrary: k) auto

lemma take_enumerate: "take n (enumerate k cs) = enumerate k (take n cs)"
  by (induction cs arbitrary: k n) (auto simp: take_Cons' )

lemma drop_enumerate: "drop n (enumerate k cs) = enumerate (k + n) (drop n cs)"
  by (induction cs arbitrary: k n) (auto simp: drop_Cons')

lemma seq_loop_advance:
  assumes "tick_each N ys w = (sts, ys', w')"
    and "\<forall>st\<in>set sts. st \<noteq> Running \<and> st \<noteq> Failure"
  shows "seq_loop N \<lparr>seq_children = xs @ ys @ zs, seq_currentIndex = length xs, seq_halted = h\<rparr> w
       = seq_loop N \<lparr>seq_children = xs @ ys' @ zs, seq_currentIndex = length xs + length ys, seq_halted = h\<rparr> w'"
  using assms
proof (induction ys arbitrary: xs w sts ys' w')
  case Nil
  then show ?case by simp
next
  case (Cons y ys)
  obtain st y1 w1 where t: "tick N y w = (st, y1, w1)" by (cases "tick N y w")
  obtain sts1 ys1 w2 where e: "tick_each N ys w1 = (sts1, ys1, w2)" by (cases "tick_each N ys w1")
  from Cons.prems(1) t e have r: "sts = st # sts1" "ys' = y1 # ys1" "w' = w2" by simp_all
  from Cons.prems(2) r have st: "st \<noteq> Running" "st \<noteq> Failure"
    and rest: "\<forall>st\<in>set sts1. st \<noteq> Running \<and> st \<noteq> Failure" by simp_all
  have "seq_loop N \<lparr>seq_children = xs @ (y # ys) @ zs, seq_currentIndex = length xs, seq_halted = h\<rparr> w
      = seq_loop N \<lparr>seq_children = (xs @ [y1]) @ ys @ zs, seq_currentIndex = length (xs @ [y1]), seq_halted = h\<rparr> w1"
    using t st by (subst seq_loop.simps) simp
  also have "\<dots> = seq_loop N \<lparr>seq_children = (xs @ [y1]) @ ys1 @ zs,
        seq_currentIndex = length (xs @ [y1]) + length ys, seq_halted = h\<rparr> w2"
    by (rule Cons.IH [OF e rest])
  finally show ?case using r by simp
qed

lemma seq_loop_Failure:
  assumes "tick N y w = (Failure, y', w')"
  shows "seq_loop N \<lparr>seq_children = xs @ y # zs, seq_currentIndex = length xs, seq_halted = h\<rparr> w
       = (Failure, \<lparr>seq_children = map (reset N) (xs @ y' # zs), seq_currentIndex = 0, seq_halted = False\<rparr>, w')"
  using assms by (subst seq_loop.simps) (simp add: Sequence_reset_def)

lemma tick_each_snoc:
  "tick_each N (ys @ [y]) w =
     (case tick_each N ys w of (sts, ys', w1) \<Rightarrow>
        (case tick N y w1 of (st, y', w2) \<Rightarrow> (sts @ [st], ys' @ [y'], w2)))"
  by (induction ys arbitrary: w) (auto split: prod.splits)

lemma sequence_first_failure:
  assumes i: "i < length cs"
    and run: "tick_each N (take (Suc i) cs) w = (sts, cs', w')"
    and before: "\<forall>j<i. sts ! j \<noteq> Running \<and> sts ! j \<noteq> Failure"
    and at: "sts ! i = Failure"
  shows "Sequence_tick N \<lparr>seq_children = cs, seq_currentIndex = 0, seq_halted = False\<rparr> w
       = (Failure, \<lparr>seq_children = map (reset N) (cs' @ drop (Suc i) cs), seq_currentIndex = 0, seq_halted = False\<rparr>, w')"
proof -
  have tk: "take (Suc i) cs = take i cs @ [cs ! i]"
    using i by (simp add: take_Suc_conv_app_nth)
  obtain sts0 ys w1 where e: "tick_each N (take i cs) w = (sts0, ys, w1)"
    by (cases "tick_each N (take i cs) w")
  obtain st y w2 where t: "tick N (cs ! i) w1 = (st, y, w2)" by (cases "tick N (cs ! i) w1")
  from run tk e t have r: "sts = sts0 @ [st]" "cs' = ys @ [y]" "w' = w2"
    by (simp_all add: tick_each_snoc)
  from tick_each_length [OF e] i have len: "length sts0 = i" "length ys = i" by simp_all
  from at r len have stF: "st = Failure" by (simp add: nth_append)
  have pre: "\<forall>st\<in>set sts0. st \<noteq> Running \<and> st \<noteq> Failure"
  proof
    fix s assume "s \<in> set sts0"
    then obtain j where "j < length sts0" "sts0 ! j = s" by (auto simp: in_set_conv_nth)
    with before r len show "s \<noteq> Running \<and> s \<noteq> Failure" by (auto simp: nth_append)
  qed
  have cs: "cs = [] @ take i cs @ (cs ! i # drop (Suc i) cs)"
    using i by (simp add: id_take_nth_drop [symmetric])
  have "seq_loop N \<lparr>seq_children = cs, seq_currentIndex = 0, seq_halted = False\<rparr> w
      = seq_loop N \<lparr>seq_children = [] @ take i cs @ (cs ! i # drop (Suc i) cs), seq_currentIndex = length ([]::'a list), seq_halted = False\<rparr> w"
    using cs by simp
  also have "\<dots> = seq_loop N \<lparr>seq_children = [] @ ys @ (cs ! i # drop (Suc i) cs),
       seq_currentIndex = length ([]::'a list) + length (take i cs), seq_halted = False\<rparr> w1"
    by (rule seq_loop_advance [OF e pre])
  also have "\<dots> = seq_loop N \<lparr>seq_children = ys @ cs ! i # drop (Suc i) cs,
       seq_currentIndex = length ys, seq_halted = False\<rparr> w1"
    using len i by simp
  also have "\<dots> = (Failure, \<lparr>seq_children = map (reset N) (ys @ y # drop (Suc i) cs), seq_currentIndex = 0, seq_halted = False\<rparr>, w2)"
    using t stF by (intro seq_loop_Failure) simp
  finally show ?thesis using r by (simp add: Sequence_tick_def)
qed


lemma seq_loop_trace:
  assumes "map fst (seq_children s) = [0..<length (seq_children s)]"
    and "seq_loop (logged N) s (w, tr) = (st, s', (w', tr'))"
  shows "\<exists>m. seq_currentIndex s \<le> m \<and> tr' = tr @ [seq_currentIndex s..<m]
           \<and> (seq_currentIndex s < length (seq_children s) \<longrightarrow> seq_currentIndex s < m)"
  using assms
proof (induction "logged N" s "(w, tr)" arbitrary: w tr rule: seq_loop.induct)
  case (1 s)
  let ?i = "seq_currentIndex s"
  show ?case
  proof (cases "?i < length (seq_children s)")
    case False
    with "1.prems"(2) have "tr' = tr" by (subst (asm) seq_loop.simps) simp
    with False show ?thesis by (intro exI [of _ ?i]) simp
  next
    case True
    obtain k c where kc: "seq_children s ! ?i = (k, c)" by (cases "seq_children s ! ?i")
    from True "1.prems"(1) have "fst (seq_children s ! ?i) = ?i"
      by (metis nth_map nth_upt add_0 length_map)
    with kc have k: "k = ?i" by simp
    obtain status c1 w1 where t: "tick N c w = (status, c1, w1)" by (cases "tick N c w")
    have lt: "logged_tick N (seq_children s ! ?i) (w, tr) = (status, (?i, c1), (w1, tr @ [?i]))"
      using kc k t by (simp add: logged_tick_def)
    show ?thesis
    proof (cases "status = Running \<or> status = Failure")
      case True
      with \<open>?i < length (seq_children s)\<close> lt "1.prems"(2) have "tr' = tr @ [?i]"
        by (subst (asm) seq_loop.simps) (auto simp: Sequence_reset_def)
      then show ?thesis by (intro exI [of _ "Suc ?i"]) simp
    next
      case False
      let ?s2 = "s\<lparr>seq_children := (seq_children s)[?i := (?i, c1)], seq_currentIndex := ?i + 1\<rparr>"
      from False \<open>?i < length (seq_children s)\<close> lt "1.prems"(2)
      have run: "seq_loop (logged N) ?s2 (w1, tr @ [?i]) = (st, s', (w', tr'))"
        by (subst (asm) seq_loop.simps) simp
      have tags: "map fst (seq_children ?s2) = [0..<length (seq_children ?s2)]"
        using "1.prems"(1) \<open>?i < length (seq_children s)\<close>
        by (simp add: map_update) (metis list_update_id nth_map nth_upt add_0 length_map map_update)
      from "1.hyps" [OF \<open>?i < length (seq_children s)\<close> _ _ _ _ _ tags run] lt False
      obtain m where "Suc ?i \<le> m" "tr' = (tr @ [?i]) @ [Suc ?i..<m]"
        by fastforce
      then show ?thesis by (intro exI [of _ m]) (simp add: upt_conv_Cons)
    qed
  qed
qed







section \<open>Facts about Parallel, the caller's loop and the decorators\<close>

lemma par_loop_tick_each:
  "tick_each N cs w = (sts, cs', w') \<Longrightarrow>
   par_loop N cs success failure w
     = (cs', success + count_list sts Success, failure + count_list sts Failure, w')"
proof (induction cs arbitrary: w sts cs' w' success failure)
  case Nil
  then show ?case by simp
next
  case (Cons c cs)
  obtain st c1 w1 where t: "tick N c w = (st, c1, w1)" by (cases "tick N c w")
  obtain sts1 cs1 w2 where e: "tick_each N cs w1 = (sts1, cs1, w2)" by (cases "tick_each N cs w1")
  from Cons.prems t e have r: "sts = st # sts1" "cs' = c1 # cs1" "w' = w2" by simp_all
  show ?case using t r Cons.IH [OF e] by simp
qed

lemma ticks_halted:
  "seq_halted s \<Longrightarrow> ticks (Sequence_tick N) n s w = (replicate n Failure, s, w)"
  by (induction n) (simp_all add: Sequence_tick_def)

lemma ticks_add:
  "ticks t (m + n) s w =
     (case ticks t m s w of (sts, s', w') \<Rightarrow>
        (case ticks t n s' w' of (sts2, s'', w'') \<Rightarrow> (sts @ sts2, s'', w'')))"
  by (induction m arbitrary: s w) (auto split: prod.splits)

lemma Repeat_body_Failure:
  "Repeat_body n a w Failure =
     (if 0 < sint n \<and> sint n \<le> sint (a + 1) then (Failure, 0) else (Running, a + 1))"
  by (simp add: Repeat_body_def Let_def)

lemma repeat_fail_step:
  assumes "tick N c w = (Failure, c', w')"
  shows "Decorator_tick N \<lparr>dec_func = Func a (Repeat_body n), dec_child = c, dec_halted = False\<rparr> w
       = (fst (Repeat_body n a w' Failure),
          \<lparr>dec_func = Func (snd (Repeat_body n a w' Failure)) (Repeat_body n),
             dec_child = c', dec_halted = False\<rparr>, w')"
  using assms by (simp add: Decorator_tick_def call_def split: prod.splits)

lemma repeat_three_ticks:
  assumes "c \<in> C"
    and fails: "\<And>c w. c \<in> C \<Longrightarrow> fst (tick N c w) = Failure \<and> fst (snd (tick N c w)) \<in> C"
  shows "\<exists>c' w'. c' \<in> C \<and>
     ticks (Decorator_tick N) 3 \<lparr>dec_func = Func 0 (Repeat_body 3), dec_child = c, dec_halted = False\<rparr> w
       = ([Running, Running, Failure],
          \<lparr>dec_func = Func 0 (Repeat_body 3), dec_child = c', dec_halted = False\<rparr>, w')"
proof -
  obtain c1 w1 where t1: "tick N c w = (Failure, c1, w1)" and c1: "c1 \<in> C"
    using fails [OF \<open>c \<in> C\<close>, of w] by (cases "tick N c w") auto
  obtain c2 w2 where t2: "tick N c1 w1 = (Failure, c2, w2)" and c2: "c2 \<in> C"
    using fails [OF c1, of w1] by (cases "tick N c1 w1") auto
  obtain c3 w3 where t3: "tick N c2 w2 = (Failure, c3, w3)" and c3: "c3 \<in> C"
    using fails [OF c2, of w2] by (cases "tick N c2 w2") auto
  have "ticks (Decorator_tick N) 3 \<lparr>dec_func = Func 0 (Repeat_body 3), dec_child = c, dec_halted = False\<rparr> w
       = ([Running, Running, Failure],
          \<lparr>dec_func = Func 0 (Repeat_body 3), dec_child = c3, dec_halted = False\<rparr>, w3)"
    by (simp add: numeral_3_eq_3 repeat_fail_step [OF t1] repeat_fail_step [OF t2]
        repeat_fail_step [OF t3] Repeat_body_Failure)
  with c3 show ?thesis by blast
qed

lemma repeat_unbounded:
  assumes "sint n \<le> 0" and "c \<in> C"
    and fails: "\<And>c w. c \<in> C \<Longrightarrow> fst (tick N c w) = Failure \<and> fst (snd (tick N c w)) \<in> C"
  shows "fst (ticks (Decorator_tick N) k
           \<lparr>dec_func = Func a (Repeat_body n), dec_child = c, dec_halted = False\<rparr> w)
       = replicate k Running"
  using \<open>c \<in> C\<close>
proof (induction k arbitrary: a c w)
  case 0
  then show ?case by simp
next
  case (Suc k)
  obtain c1 w1 where t1: "tick N c w = (Failure, c1, w1)" and c1: "c1 \<in> C"
    using fails [OF \<open>c \<in> C\<close>, of w] by (cases "tick N c w") auto
  show ?case
    using Suc.IH [OF c1, of "a + 1" w1] \<open>sint n \<le> 0\<close>
    by (auto simp add: repeat_fail_step [OF t1] Repeat_body_Failure split: prod.splits)
qed

lemma log2_floor_nonneg: "0 \<le> log2_floor n"
  by (induction n rule: log2_floor.induct) (subst log2_floor.simps, simp)

lemma log2_floor_bounds:
  "0 < n \<Longrightarrow> 2 ^ nat (log2_floor n) \<le> n \<and> n < 2 * 2 ^ nat (log2_floor n)"
proof (induction n rule: log2_floor.induct)
  case (1 n)
  show ?case
  proof (cases "n < 2")
    case True
    with "1.prems" have "n = 1" by simp
    then show ?thesis by (simp add: log2_floor.simps)
  next
    case False
    then have "0 < n div 2" by simp
    from "1.IH" [OF False this] have
      lo: "2 ^ nat (log2_floor (n div 2)) \<le> n div 2"
      and hi: "n div 2 < 2 * 2 ^ nat (log2_floor (n div 2))" by simp_all
    have eq: "nat (log2_floor n) = Suc (nat (log2_floor (n div 2)))"
      using False log2_floor_nonneg [of "n div 2"]
      by (subst log2_floor.simps) (simp add: nat_add_distrib)
    from lo hi show ?thesis unfolding eq by simp linarith
  qed
qed

lemma exponent_bounds:
  assumes "0 < q"
  shows "2 powi exponent q \<le> q \<and> q < 2 powi (exponent q + 1)"
proof -
  obtain n d where nd: "quotient_of q = (n, d)" by (cases "quotient_of q")
  then have d: "0 < d" and q: "q = of_int n / of_int d"
    by (simp_all add: quotient_of_denom_pos quotient_of_div)
  with assms have n: "0 < n" by (simp add: zero_less_divide_iff)
  let ?a = "log2_floor n" and ?b = "log2_floor d"
  have cast: "(2::rat) powi log2_floor m \<le> of_int m \<and> (of_int m :: rat) < 2 powi (log2_floor m + 1)"
    if "0 < m" for m
  proof -
    from log2_floor_bounds [OF that] have
      "(of_int (2 ^ nat (log2_floor m)) :: rat) \<le> of_int m"
      "(of_int m :: rat) < of_int (2 * 2 ^ nat (log2_floor m))"
      by (simp_all only: of_int_le_iff of_int_less_iff)
    then show ?thesis
      using log2_floor_nonneg [of m] by (simp add: power_int_def nat_add_distrib)
  qed
  note a = cast [OF n, THEN conjunct1] cast [OF n, THEN conjunct2]
  note b = cast [OF d, THEN conjunct1] cast [OF d, THEN conjunct2]
  have pos: "\<And>e. (0::rat) < 2 powi e" by simp
  have up: "q < 2 powi (?a - ?b + 1)"
  proof -
    have "q < 2 powi (?a + 1) / of_int d"
      unfolding q using a(2) d by (simp add: divide_strict_right_mono)
    also have "\<dots> \<le> 2 powi (?a + 1) / 2 powi ?b"
      by (rule frac_le) (use b(1) pos [of ?b] pos [of "?a + 1"] in simp_all)
    also have "\<dots> = 2 powi (?a - ?b + 1)"
      by (simp add: power_int_diff [symmetric] algebra_simps)
    finally show ?thesis .
  qed
  have low: "2 powi (?a - ?b - 1) \<le> q"
  proof -
    have "2 powi (?a - ?b - 1) = (2::rat) powi ?a / 2 powi (?b + 1)"
      by (simp add: power_int_diff [symmetric] algebra_simps)
    also have "\<dots> \<le> 2 powi ?a / of_int d"
      by (rule frac_le) (use b(2) d pos [of ?a] pos [of "?b + 1"] in simp_all)
    also have "\<dots> \<le> q"
      unfolding q using a(1) d by (simp add: divide_right_mono)
    finally show ?thesis .
  qed
  show ?thesis
    using up low nd by (simp add: exponent_def Let_def not_le)
qed

lemma round_half_even_error: "\<bar>of_int (round_half_even x) - x\<bar> \<le> 1 / 2"
  unfolding round_half_even_def Let_def
  by (auto simp: abs_if) linarith+

lemma round_f32_nearest:
  assumes "q \<noteq> 0"
  shows "\<bar>round_f32 q - q\<bar> \<le> 2 powi (max (exponent \<bar>q\<bar>) (- 126) - 23) / 2"
proof -
  let ?u = "(2::rat) powi (max (exponent \<bar>q\<bar>) (- 126) - 23)"
  have u: "0 < ?u" by simp
  have "round_f32 q - q = (of_int (round_half_even (q / ?u)) - q / ?u) * ?u"
    using assms u by (simp add: round_f32_def Let_def algebra_simps)
  then have "\<bar>round_f32 q - q\<bar> = \<bar>of_int (round_half_even (q / ?u)) - q / ?u\<bar> * ?u"
    using u by (simp add: abs_mult)
  also have "\<dots> \<le> (1 / 2) * ?u"
    using round_half_even_error [of "q / ?u"] u by (intro mult_right_mono) simp_all
  finally show ?thesis by simp
qed

text \<open>Known values: \<^verbatim>\<open>0.1f\<close>, a third, ties to even at \<open>2 ^ 24\<close>, the smallest subnormal.\<close>

lemma round_f32_values:
  "round_f32 (1 / 10) = 13421773 / 134217728"
  "round_f32 (1 / 3) = 11184811 / 33554432"
  "round_f32 (1 / 2) = 1 / 2"
  "round_f32 16777217 = 16777216"
  "round_f32 16777219 = 16777220"
  "round_f32 (1 / 2 ^ 149) = 1 / 2 ^ 149"
  "round_f32 (3 / 2 ^ 150) = 1 / 2 ^ 148"
  by code_simp+

text \<open>
  The elapsed time as the cooldown computes it, 200 ms and 100 ms after a success:
  \<^verbatim>\<open>200 / 1000.0f\<close> is \<^verbatim>\<open>0.2f\<close> and \<^verbatim>\<open>100 / 1000.0f\<close> is \<^verbatim>\<open>0.1f\<close>.
\<close>

lemma elapsed_s_values:
  "elapsed_s 1200000000 1000000000 = 13421773 / 67108864"
  "elapsed_s 1100000000 1000000000 = 13421773 / 134217728"
  by code_simp+

text \<open>The listing: a sequence of two actions, the empty builder, a parent that is no composite.\<close>

lemma build_sequence_of_two:
  "build (Builder_end (Builder_action a2 (Builder_action a1 (Builder_sequence Builder_new))))
   = \<lparr>tree_root = Some 0, blackboard = Blackboard_new,
       tree_store = [SequenceObj [1, 2] 0, ActionObj a1, ActionObj a2]\<rparr>"
  by (simp add: build_def Builder_end_def Builder_action_def Builder_sequence_def Builder_new_def
      make_shared_def add_def wrap_decorators.simps)

lemma listing_build_without_root:
  "build Builder_new = \<lparr>tree_root = None, blackboard = Blackboard_new, tree_store = []\<rparr>"
  by (simp add: build_def Builder_new_def)

lemma add_ignores_non_composite:
  assumes "stack b \<noteq> []" and "last (stack b) < length (store b)"
    and "store b ! last (stack b) = ActionObj func \<or> store b ! last (stack b) = DecoratorObj f child"
  shows "add n b = b"
  using assms by (auto simp: add_def)

section \<open>The claims\<close>



text \<open>
  C2.  A Sequence that is not halted and starts at cursor 0, whose children
  \<open>0, \<dots>, i - 1\<close> return neither \<^verbatim>\<open>Running\<close> nor \<^verbatim>\<open>Failure\<close> when ticked in order and whose
  child \<open>i\<close> then returns \<^verbatim>\<open>Failure\<close>: the tick returns \<^verbatim>\<open>Failure\<close>, the children ticked
  are exactly \<open>0, \<dots>, i\<close>, once each and in order, and afterwards the cursor is 0 and
  every child has been reset.
\<close>

theorem sequence_fails_at_first_failure:
  assumes i: "i < length cs"
    and run: "tick_each N (take (Suc i) cs) w = (sts, cs', w')"
    and before: "\<forall>j<i. sts ! j \<noteq> Running \<and> sts ! j \<noteq> Failure"
    and at: "sts ! i = Failure"
  shows "Sequence_tick (logged N)
           \<lparr>seq_children = enumerate 0 cs, seq_currentIndex = 0, seq_halted = False\<rparr> (w, tr)
       = (Failure,
          \<lparr>seq_children = enumerate 0 (map (reset N) (cs' @ drop (Suc i) cs)),
             seq_currentIndex = 0, seq_halted = False\<rparr>,
          (w', tr @ [0..<Suc i]))"
proof -
  have len: "length cs' = Suc i"
    using tick_each_length [OF run] i by simp
  have "length (take (Suc i) cs) = Suc i" using i by simp
  then have run': "tick_each (logged N) (take (Suc i) (enumerate 0 cs)) (w, tr)
      = (sts, enumerate 0 cs', (w', tr @ [0..<Suc i]))"
    using tick_each_logged [OF run, of 0 tr] by (simp only: take_enumerate add_0)
  have i': "i < length (enumerate 0 cs)" using i by simp
  have "map (apsnd (reset N)) (enumerate 0 cs' @ drop (Suc i) (enumerate 0 cs))
      = enumerate 0 (map (reset N) (cs' @ drop (Suc i) cs))"
    using len by (simp add: drop_enumerate enumerate_append_eq map_apsnd_enumerate)
  with sequence_first_failure [OF i' run' before at] show ?thesis by simp
qed

text \<open>
  Four actions of which the third fails: three executions, logged as 0, 1, 2.
\<close>

theorem sequence_fails_at_first_failure_witness:
  "Sequence_tick (logged Action)
     \<lparr>seq_children = enumerate 0 [act_Success, act_Success, act_Failure, act_Success],
        seq_currentIndex = 0, seq_halted = False\<rparr> (0, [])
   = (Failure,
      \<lparr>seq_children = enumerate 0 [act_Success, act_Success, act_Failure, act_Success],
         seq_currentIndex = 0, seq_halted = False\<rparr>, (3, [0, 1, 2]))"
  using sequence_fails_at_first_failure [of 2 "[act_Success, act_Success, act_Failure, act_Success]"
    Action 0 "[Success, Success, Failure]" "[act_Success, act_Success, act_Failure]" 3 "[]"]
  by (simp add: act_defs less_Suc_eq numeral_2_eq_2 upt_rec)

text \<open>
  C3, as the claim states it, fails: a tick inside the cooldown does tick the child.
  A Cooldown of half a second over an action that always succeeds, ticked twice at the
  same clock reading: the child is ticked both times.  Over an action that is still
  running, 200 ms after a recorded success: the tick returns \<^verbatim>\<open>Failure\<close>, and the child has
  been ticked.
\<close>

theorem cooldown_ticks_child_counterexample:
  "snd (snd (snd (ticks (Decorator_tick (logged Action)) 2
     \<lparr>dec_func = Cooldown fst (1 / 2), dec_child = (0, act_instant), dec_halted = False\<rparr>
     (1000000000, [])))) = [0, 0]
   \<and> Decorator_tick (logged Action)
       \<lparr>dec_func = Func 1000000000 (body (Cooldown fst (1 / 2))),
          dec_child = (0, act_instant_Running), dec_halted = False\<rparr> (1200000000, [])
     = (Failure,
        \<lparr>dec_func = Func 1000000000 (body (Cooldown fst (1 / 2))),
           dec_child = (0, act_instant_Running), dec_halted = False\<rparr>,
        (1200000000, [0]))"
  by (simp add: numeral_2_eq_2 Decorator_tick_def logged_tick_def call_def Cooldown_def
      Cooldown_body_def act_defs round_f32_values elapsed_s_values)

text \<open>
  C3, amended.  A Decorator that is not halted ticks its child exactly once also when its
  function is a Cooldown: the function only sees the status the child returned.  When that
  status is not \<^verbatim>\<open>Success\<close>, the tick returns \<^verbatim>\<open>Failure\<close> if a success is recorded and the
  time since it, as the cooldown measures it (whole milliseconds, divided by 1000 in
  \<^verbatim>\<open>float\<close>), is less than \<open>seconds\<close>; otherwise it returns the child's status; the
  recorded time stays.  When the child returns \<^verbatim>\<open>Success\<close> and no success is recorded yet
  (the first tick over a child that always succeeds) or the cooldown is over, the tick
  returns \<^verbatim>\<open>Success\<close> and records the time.
\<close>

theorem cooldown_gates_child_status:
  assumes "\<not> dec_halted d"
    and "dec_func d = Func lastSuccess (body (Cooldown now seconds))"
    and "dec_child d = (k, c)"
    and "tick N c w = (childStatus, c', w')"
  shows "snd (snd (Decorator_tick (logged N) d (w, tr))) = (w', tr @ [k])
     \<and> (childStatus \<noteq> Success
        \<longrightarrow> fst (Decorator_tick (logged N) d (w, tr))
            = (if lastSuccess \<noteq> 0 \<and> elapsed_s (now (w', tr @ [k])) lastSuccess < round_f32 seconds
               then Failure else childStatus)
          \<and> captures (dec_func (fst (snd (Decorator_tick (logged N) d (w, tr))))) = lastSuccess)
     \<and> (childStatus = Success
          \<and> (lastSuccess = 0 \<or> \<not> elapsed_s (now (w', tr @ [k])) lastSuccess < round_f32 seconds)
        \<longrightarrow> fst (Decorator_tick (logged N) d (w, tr)) = Success
          \<and> captures (dec_func (fst (snd (Decorator_tick (logged N) d (w, tr)))))
            = now (w', tr @ [k]))"
proof -
  let ?body = "Cooldown_body now (round_f32 seconds)"
  have f: "dec_func d = Func lastSuccess ?body"
    using assms(2) by (simp add: Cooldown_def)
  have "Decorator_tick (logged N) d (w, tr)
      = (fst (?body lastSuccess (w', tr @ [k]) childStatus),
         d\<lparr>dec_func := Func (snd (?body lastSuccess (w', tr @ [k]) childStatus)) ?body,
           dec_child := (k, c')\<rparr>,
         (w', tr @ [k]))"
    using assms(1,3,4) f
    by (simp add: Decorator_tick_def logged_tick_def call_def split: prod.splits)
  then show ?thesis
    by (simp add: Cooldown_body_def)
qed

text \<open>
  Over an action that is still running, with a success recorded at 1 s.  Half a second of
  cooldown, 200 ms later: \<^verbatim>\<open>Failure\<close>.  \<^verbatim>\<open>0.1f\<close> of cooldown, 100 ms later: the quotient is
  \<^verbatim>\<open>0.1f\<close> itself, not less, and \<^verbatim>\<open>Running\<close> passes.  And a first success is let through.
\<close>

theorem cooldown_gates_child_status_witness:
  "Decorator_tick (logged Action)
     \<lparr>dec_func = Func 1000000000 (body (Cooldown fst (1 / 2))),
        dec_child = (0, act_instant_Running), dec_halted = False\<rparr> (1200000000, [])
   = (Failure,
      \<lparr>dec_func = Func 1000000000 (body (Cooldown fst (1 / 2))),
        dec_child = (0, act_instant_Running), dec_halted = False\<rparr>, (1200000000, [0]))
   \<and> Decorator_tick (logged Action)
     \<lparr>dec_func = Func 1000000000 (body (Cooldown fst (1 / 10))),
        dec_child = (0, act_instant_Running), dec_halted = False\<rparr> (1100000000, [])
   = (Running,
      \<lparr>dec_func = Func 1000000000 (body (Cooldown fst (1 / 10))),
        dec_child = (0, act_instant_Running), dec_halted = False\<rparr>, (1100000000, [0]))
   \<and> Decorator_tick (logged Action)
     \<lparr>dec_func = Cooldown fst (1 / 2), dec_child = (0, act_instant), dec_halted = False\<rparr>
     (1000000000, [])
   = (Success,
      \<lparr>dec_func = Func 1000000000 (body (Cooldown fst (1 / 2))),
        dec_child = (0, act_instant), dec_halted = False\<rparr>, (1000000000, [0]))"
  using cooldown_gates_child_status [of
      "\<lparr>dec_func = Func 1000000000 (body (Cooldown fst (1 / 2))),
        dec_child = (0, act_instant_Running), dec_halted = False\<rparr>"
      1000000000 fst "1 / 2" 0 act_instant_Running Action 1200000000 Running act_instant_Running
      1200000000 "[]"]
  by (simp add: Decorator_tick_def logged_tick_def call_def Cooldown_def Cooldown_body_def
      act_defs round_f32_values elapsed_s_values)

text \<open>
  C4.  A Parallel ticks every child once, from first to last, whatever the children
  return.  Its status is decided from the number of children that returned \<^verbatim>\<open>Success\<close>
  and the number that returned \<^verbatim>\<open>Failure\<close> (a \<^verbatim>\<open>Running\<close> child is in neither): the success
  policy first, then the failure policy, else \<^verbatim>\<open>Running\<close>.  With \<^verbatim>\<open>RequireAll\<close> for success,
  \<^verbatim>\<open>RequireOne\<close> for failure and children returning \<^verbatim>\<open>Success, Success, Failure\<close> the status
  is \<^verbatim>\<open>Failure\<close>.
\<close>

theorem parallel_ticks_every_child:
  assumes "tick_each N cs w = (sts, cs', w')"
  shows "Parallel_tick (logged N)
           \<lparr>par_children = enumerate 0 cs, successPolicy = sp, failurePolicy = fp\<rparr> (w, tr)
         = (if (sp = RequireAll \<and> count_list sts Success = length cs)
               \<or> (sp = RequireOne \<and> 0 < count_list sts Success) then Success
            else if (fp = RequireAll \<and> count_list sts Failure = length cs)
               \<or> (fp = RequireOne \<and> 0 < count_list sts Failure) then Failure
            else Running,
            \<lparr>par_children = enumerate 0 cs', successPolicy = sp, failurePolicy = fp\<rparr>,
            (w', tr @ [0..<length cs]))
       \<and> (sp = RequireAll \<and> fp = RequireOne \<and> sts = [Success, Success, Failure]
            \<longrightarrow> fst (Parallel_tick (logged N)
                  \<lparr>par_children = enumerate 0 cs, successPolicy = sp, failurePolicy = fp\<rparr> (w, tr))
                = Failure)"
proof -
  have len: "length cs' = length cs" "length sts = length cs"
    using tick_each_length [OF assms] by simp_all
  have "par_loop (logged N) (enumerate 0 cs) 0 0 (w, tr)
      = (enumerate 0 cs', count_list sts Success, count_list sts Failure, (w', tr @ [0..<length cs]))"
    using par_loop_tick_each [OF tick_each_logged [OF assms, of 0 tr], of 0 0] by simp
  then have eq: "Parallel_tick (logged N)
           \<lparr>par_children = enumerate 0 cs, successPolicy = sp, failurePolicy = fp\<rparr> (w, tr)
         = (if (sp = RequireAll \<and> count_list sts Success = length cs)
               \<or> (sp = RequireOne \<and> 0 < count_list sts Success) then Success
            else if (fp = RequireAll \<and> count_list sts Failure = length cs)
               \<or> (fp = RequireOne \<and> 0 < count_list sts Failure) then Failure
            else Running,
            \<lparr>par_children = enumerate 0 cs', successPolicy = sp, failurePolicy = fp\<rparr>,
            (w', tr @ [0..<length cs]))"
    using len by (simp add: Parallel_tick_def Let_def)
  show ?thesis
  proof (intro conjI impI)
    show "Parallel_tick (logged N)
           \<lparr>par_children = enumerate 0 cs, successPolicy = sp, failurePolicy = fp\<rparr> (w, tr)
         = (if (sp = RequireAll \<and> count_list sts Success = length cs)
               \<or> (sp = RequireOne \<and> 0 < count_list sts Success) then Success
            else if (fp = RequireAll \<and> count_list sts Failure = length cs)
               \<or> (fp = RequireOne \<and> 0 < count_list sts Failure) then Failure
            else Running,
            \<lparr>par_children = enumerate 0 cs', successPolicy = sp, failurePolicy = fp\<rparr>,
            (w', tr @ [0..<length cs]))" by (rule eq)
  next
    assume a: "sp = RequireAll \<and> fp = RequireOne \<and> sts = [Success, Success, Failure]"
    with len have "length cs = 3" by simp
    with a eq show "fst (Parallel_tick (logged N)
                  \<lparr>par_children = enumerate 0 cs, successPolicy = sp, failurePolicy = fp\<rparr> (w, tr))
                = Failure"
      by simp
  qed
qed

text \<open>
  The three actions of the example.
\<close>

theorem parallel_ticks_every_child_witness:
  "Parallel_tick (logged Action)
     \<lparr>par_children = enumerate 0 [act_Success, act_Success, act_Failure],
        successPolicy = RequireAll, failurePolicy = RequireOne\<rparr> (0, [])
   = (Failure,
      \<lparr>par_children = enumerate 0 [act_Success, act_Success, act_Failure],
        successPolicy = RequireAll, failurePolicy = RequireOne\<rparr>, (3, [0, 1, 2]))"
  using parallel_ticks_every_child [of Action "[act_Success, act_Success, act_Failure]" 0
    "[Success, Success, Failure]" "[act_Success, act_Success, act_Failure]" 3 RequireAll RequireOne "[]"]
  by (simp add: act_defs upt_rec)

text \<open>
  C5.  After \<^verbatim>\<open>halt()\<close> any number of ticks of a Sequence return \<^verbatim>\<open>Failure\<close> each and leave
  the sequence, the world and the log of child ticks as they are.  \<^verbatim>\<open>reset()\<close> clears the
  flag and sets the cursor to 0, and the tick after it ticks the children \<open>0, \<dots>, m - 1\<close>
  for some \<open>m\<close>, the first child first.
\<close>

theorem halted_sequence_short_circuits:
  "ticks (Sequence_tick (logged N)) n
     (Sequence_halt (logged N) \<lparr>seq_children = enumerate 0 cs, seq_currentIndex = i, seq_halted = h\<rparr>)
     (w, tr)
   = (replicate n Failure,
      \<lparr>seq_children = enumerate 0 (map (halt N) cs), seq_currentIndex = i, seq_halted = True\<rparr>,
      (w, tr))
   \<and> Sequence_reset (logged N)
       \<lparr>seq_children = enumerate 0 (map (halt N) cs), seq_currentIndex = i, seq_halted = True\<rparr>
     = \<lparr>seq_children = enumerate 0 (map (reset N) (map (halt N) cs)),
         seq_currentIndex = 0, seq_halted = False\<rparr>
   \<and> (\<forall>st s' w' tr'.
        Sequence_tick (logged N)
          \<lparr>seq_children = enumerate 0 (map (reset N) (map (halt N) cs)),
             seq_currentIndex = 0, seq_halted = False\<rparr> (w, tr) = (st, s', (w', tr'))
        \<longrightarrow> (\<exists>m. tr' = tr @ [0..<m] \<and> (cs \<noteq> [] \<longrightarrow> 0 < m)))"
proof (intro conjI allI impI)
  show "ticks (Sequence_tick (logged N)) n
     (Sequence_halt (logged N) \<lparr>seq_children = enumerate 0 cs, seq_currentIndex = i, seq_halted = h\<rparr>)
     (w, tr)
   = (replicate n Failure,
      \<lparr>seq_children = enumerate 0 (map (halt N) cs), seq_currentIndex = i, seq_halted = True\<rparr>,
      (w, tr))"
    by (simp add: Sequence_halt_def map_apsnd_enumerate ticks_halted)
  show "Sequence_reset (logged N)
       \<lparr>seq_children = enumerate 0 (map (halt N) cs), seq_currentIndex = i, seq_halted = True\<rparr>
     = \<lparr>seq_children = enumerate 0 (map (reset N) (map (halt N) cs)),
         seq_currentIndex = 0, seq_halted = False\<rparr>"
    by (simp add: Sequence_reset_def map_apsnd_enumerate)
next
  fix st s' w' tr'
  assume "Sequence_tick (logged N)
          \<lparr>seq_children = enumerate 0 (map (reset N) (map (halt N) cs)),
             seq_currentIndex = 0, seq_halted = False\<rparr> (w, tr) = (st, s', (w', tr'))"
  then show "\<exists>m. tr' = tr @ [0..<m] \<and> (cs \<noteq> [] \<longrightarrow> 0 < m)"
    using seq_loop_trace [of "\<lparr>seq_children = enumerate 0 (map (reset N) (map (halt N) cs)),
             seq_currentIndex = 0, seq_halted = False\<rparr>" N w tr st s' w' tr']
    by (auto simp: Sequence_tick_def)
qed

text \<open>
  A sequence halted with its cursor at the second action, ticked three times, then reset.
\<close>

theorem halted_sequence_short_circuits_witness:
  "ticks (Sequence_tick (logged Action)) 3
     (Sequence_halt (logged Action)
        \<lparr>seq_children = enumerate 0 [act_Success, act_wait, act_Failure],
           seq_currentIndex = 1, seq_halted = False\<rparr>) (1, [0, 1])
   = ([Failure, Failure, Failure],
      \<lparr>seq_children = enumerate 0 [act_Success, act_wait, act_Failure],
         seq_currentIndex = 1, seq_halted = True\<rparr>, (1, [0, 1]))
   \<and> Sequence_tick (logged Action)
        (Sequence_reset (logged Action)
          \<lparr>seq_children = enumerate 0 [act_Success, act_wait, act_Failure],
             seq_currentIndex = 1, seq_halted = True\<rparr>) (1, [0, 1])
     = (Failure,
        \<lparr>seq_children = enumerate 0 [act_Success, act_wait, act_Failure],
           seq_currentIndex = 0, seq_halted = False\<rparr>, (4, [0, 1, 0, 1, 2]))"
  using halted_sequence_short_circuits [of Action 3 "[act_Success, act_wait, act_Failure]" 1 False 1 "[0, 1]"]
  by (simp add: act_defs Sequence_tick_def seq_loop.simps logged_tick_def Sequence_reset_def
      Sequence_halt_def numeral_3_eq_3)

text \<open>
  C6.  \<^verbatim>\<open>Repeat(3)\<close> over a child that fails on every tick: three ticks return
  \<^verbatim>\<open>Running, Running, Failure\<close> and leave the counter at 0, six ticks return that twice.
  With \<^verbatim>\<open>maxTimes <= 0\<close> every tick returns \<^verbatim>\<open>Running\<close>, whatever the counter is.  The set
  \<open>C\<close> holds the states the failing child can be in.
\<close>

theorem repeat_gives_up_after_three:
  assumes "c \<in> C"
    and fails: "\<And>c w. c \<in> C \<Longrightarrow> fst (tick N c w) = Failure \<and> fst (snd (tick N c w)) \<in> C"
  shows "(\<exists>c' w'. c' \<in> C \<and>
            ticks (Decorator_tick N) 3 \<lparr>dec_func = Repeat 3, dec_child = c, dec_halted = False\<rparr> w
          = ([Running, Running, Failure],
             \<lparr>dec_func = Func 0 (Repeat_body 3), dec_child = c', dec_halted = False\<rparr>, w'))
       \<and> fst (ticks (Decorator_tick N) 6 \<lparr>dec_func = Repeat 3, dec_child = c, dec_halted = False\<rparr> w)
          = [Running, Running, Failure, Running, Running, Failure]
       \<and> (sint n \<le> 0 \<longrightarrow>
            fst (ticks (Decorator_tick N) k
              \<lparr>dec_func = Func a (Repeat_body n), dec_child = c, dec_halted = False\<rparr> w)
            = replicate k Running)"
proof (intro conjI impI)
  show "\<exists>c' w'. c' \<in> C \<and>
            ticks (Decorator_tick N) 3 \<lparr>dec_func = Repeat 3, dec_child = c, dec_halted = False\<rparr> w
          = ([Running, Running, Failure],
             \<lparr>dec_func = Func 0 (Repeat_body 3), dec_child = c', dec_halted = False\<rparr>, w')"
    unfolding Repeat_def using assms by (rule repeat_three_ticks)
next
  obtain c1 w1 where c1: "c1 \<in> C" and
    first: "ticks (Decorator_tick N) 3 \<lparr>dec_func = Func 0 (Repeat_body 3), dec_child = c, dec_halted = False\<rparr> w
       = ([Running, Running, Failure],
          \<lparr>dec_func = Func 0 (Repeat_body 3), dec_child = c1, dec_halted = False\<rparr>, w1)"
    using repeat_three_ticks [OF assms] by blast
  obtain c2 w2 where
    second: "ticks (Decorator_tick N) 3 \<lparr>dec_func = Func 0 (Repeat_body 3), dec_child = c1, dec_halted = False\<rparr> w1
       = ([Running, Running, Failure],
          \<lparr>dec_func = Func 0 (Repeat_body 3), dec_child = c2, dec_halted = False\<rparr>, w2)"
    using repeat_three_ticks [OF c1 fails] by blast
  have "ticks (Decorator_tick N) (3 + 3) \<lparr>dec_func = Func 0 (Repeat_body 3), dec_child = c, dec_halted = False\<rparr> w
     = ([Running, Running, Failure, Running, Running, Failure],
          \<lparr>dec_func = Func 0 (Repeat_body 3), dec_child = c2, dec_halted = False\<rparr>, w2)"
    by (simp only: ticks_add first second prod.case append.simps)
  then show "fst (ticks (Decorator_tick N) 6 \<lparr>dec_func = Repeat 3, dec_child = c, dec_halted = False\<rparr> w)
          = [Running, Running, Failure, Running, Running, Failure]"
    by (simp add: Repeat_def)
next
  assume "sint n \<le> 0"
  then show "fst (ticks (Decorator_tick N) k
              \<lparr>dec_func = Func a (Repeat_body n), dec_child = c, dec_halted = False\<rparr> w)
            = replicate k Running"
    using \<open>c \<in> C\<close> fails by (rule repeat_unbounded)
qed

text \<open>
  The failing action under \<^verbatim>\<open>Repeat(3)\<close> and under the default \<^verbatim>\<open>Repeat(-1)\<close>.
\<close>

theorem repeat_gives_up_after_three_witness:
  "ticks (Decorator_tick (logged Action)) 6
     \<lparr>dec_func = Repeat 3, dec_child = (0, act_Failure), dec_halted = False\<rparr> (0, [])
   = ([Running, Running, Failure, Running, Running, Failure],
      \<lparr>dec_func = Func 0 (Repeat_body 3), dec_child = (0, act_Failure), dec_halted = False\<rparr>,
      (6, [0, 0, 0, 0, 0, 0]))
   \<and> fst (ticks (Decorator_tick (logged Action)) 4
     \<lparr>dec_func = Repeat (- 1), dec_child = (0, act_Failure), dec_halted = False\<rparr> (0, []))
   = [Running, Running, Running, Running]"
  using repeat_gives_up_after_three [of "(0, act_Failure)" "{(0, act_Failure)}" "logged Action"
      "(0, [])" "- 1" 4 0]
  by (simp add: act_defs logged_tick_def Decorator_tick_def call_def Repeat_def Repeat_body_def
      eval_nat_numeral)

text \<open>
  C7.  \<^verbatim>\<open>get<T>\<close> after \<^verbatim>\<open>set<T>\<close> on the same key returns the value; \<^verbatim>\<open>get<U>\<close> with another
  type, and \<^verbatim>\<open>get\<close> on a key that is not set, return the empty optional.  No exception
  leaves \<^verbatim>\<open>get\<close> in any of these cases.
\<close>

theorem blackboard_round_trip:
  "Blackboard_get T k (Blackboard_set T k v bb) = Inr (Some v)
   \<and> (U \<noteq> T \<longrightarrow> Blackboard_get U k (Blackboard_set T k v bb) = Inr None)
   \<and> (bb_data bb k = None \<longrightarrow> Blackboard_get U k bb = Inr None)"
  by (simp add: Blackboard_get_def Blackboard_set_def any_cast_def make_any_def)

text \<open>
  The integer 42 under the key of the unit test.
\<close>

theorem blackboard_round_trip_witness:
  "Blackboard_get ''int'' ''test_int'' (Blackboard_set ''int'' ''test_int'' (42::int) Blackboard_new)
     = Inr (Some 42)
   \<and> Blackboard_get ''std::string'' ''test_int''
       (Blackboard_set ''int'' ''test_int'' (42::int) Blackboard_new) = Inr None
   \<and> Blackboard_get ''int'' ''non_existent'' (Blackboard_new :: (string, int) Blackboard) = Inr None"
  using blackboard_round_trip [of "''int''" "''test_int''" "42::int" Blackboard_new "''std::string''"]
    blackboard_round_trip [of "''int''" "''non_existent''" "42::int" Blackboard_new "''int''"]
  by (simp add: Blackboard_new_def)



text \<open>
  C9.  A Decorator that is not halted ticks its child exactly once and returns what its
  function makes of the status the child has just returned, for every function.
\<close>

theorem decorator_ticks_child_once:
  assumes "\<not> dec_halted d" and "dec_child d = (k, c)" and "tick N c w = (childStatus, c', w')"
  shows "Decorator_tick (logged N) d (w, tr)
       = (fst (call (dec_func d) (w', tr @ [k]) childStatus),
          d\<lparr>dec_func := snd (call (dec_func d) (w', tr @ [k]) childStatus), dec_child := (k, c')\<rparr>,
          (w', tr @ [k]))
     \<and> fst (call (dec_func d) (w', tr @ [k]) childStatus)
       = fst (body (dec_func d) (captures (dec_func d)) (w', tr @ [k]) childStatus)"
  using assms
  by (simp add: Decorator_tick_def logged_tick_def call_def split: prod.splits)

text \<open>
  The inverter over the failing action.
\<close>

theorem decorator_ticks_child_once_witness:
  "Decorator_tick (logged Action)
     \<lparr>dec_func = Inverter, dec_child = (0, act_Failure), dec_halted = False\<rparr> (0, [])
   = (Success, \<lparr>dec_func = Inverter, dec_child = (0, act_Failure), dec_halted = False\<rparr>, (1, [0]))"
  using decorator_ticks_child_once [of "\<lparr>dec_func = Inverter, dec_child = (0, act_Failure), dec_halted = False\<rparr>"
     0 act_Failure Action 0 Failure act_Failure 1 "[]"]
  by (simp add: act_defs Inverter_def call_def)

text \<open>
  C10.  A Sequence without children that is not halted returns \<^verbatim>\<open>Success\<close>; the world is
  left as it is.
\<close>

theorem empty_sequence_succeeds:
  assumes "seq_children s = []" and "\<not> seq_halted s"
  shows "Sequence_tick N s w = (Success, Sequence_reset N s, w) \<and> seq_children (Sequence_reset N s) = []"
  using assms by (simp add: Sequence_tick_def seq_loop.simps Sequence_reset_def)

text \<open>
  The empty sequence over the logging world.
\<close>

theorem empty_sequence_succeeds_witness:
  "Sequence_tick (logged Action) \<lparr>seq_children = [], seq_currentIndex = 0, seq_halted = False\<rparr> (0::nat, [])
     = (Success, \<lparr>seq_children = [], seq_currentIndex = 0, seq_halted = False\<rparr>, (0, []))"
  using empty_sequence_succeeds [of "\<lparr>seq_children = [], seq_currentIndex = 0, seq_halted = False\<rparr>" "logged Action" "(0::nat, [])"]
  by (simp add: Sequence_reset_def)

end
